theory Spec2Isabelle
  imports Main
begin

section \<open>Values, controls and rules\<close>

text \<open>
  The value of a form control is untyped in the source (\<open>AbstractControl.value\<close>).
  The rules only distinguish \<open>null\<close>/\<open>undefined\<close> (the test \<open>value == null\<close>),
  strings (which have \<open>match\<close> and \<open>toString\<close>) and every other value, which
  is represented by the string its \<open>toString()\<close> returns and has no \<open>match\<close> method.
  A string is a list of characters; only emptiness and the ASCII characters of the email
  pattern are ever inspected.
\<close>

datatype jsvalue = JNull | JUndefined | JStr string | JOther string

datatype exn = TypeError | Thrown string

record control =
  cvalue :: jsvalue
  untouched :: bool
  status :: string
  errors :: "(string \<times> bool) list option"

text \<open>
  The two rule interfaces have the same shape and differ in what \<open>isValid\<close> returns:
  a synchronous rule returns a boolean or throws; an asynchronous rule returns a promise,
  which is represented by the way it settles.
\<close>

datatype settle = Resolves bool | Rejects exn | Pending

record 'r rule =
  getDescription :: "string option"
  getFeedback :: "string option"
  isValid :: "control option \<Rightarrow> 'r"

type_synonym SynchronousValidationRule = "(exn + bool) rule"
type_synonym AsynchronousValidationRule = "settle rule"

datatype 'r ruleset = RuleSet (getRuleSet: "'r rule list")

subsection \<open>Loose equality with null, toString\<close>

fun eq_null :: "jsvalue \<Rightarrow> bool" where
  "eq_null JNull = True"
| "eq_null JUndefined = True"
| "eq_null (JStr s) = False"
| "eq_null (JOther s) = False"

fun toString :: "jsvalue \<Rightarrow> exn + string" where
  "toString JNull = Inl TypeError"
| "toString JUndefined = Inl TypeError"
| "toString (JStr s) = Inr s"
| "toString (JOther s) = Inr s"

subsection \<open>The regular expression of the email rule\<close>

text \<open>
  The pattern \<open>/^[A-Z0-9._%+-]+@[A-Z0-9.-]+\.[A-Z]{2,}$/i\<close> is a sequence of pieces between
  the two anchors; each piece is one atom or an atom repeated at least \<open>n\<close> times
  (\<open>+\<close> is \<open>{1,}\<close>). An atom is a literal character or a character class of single
  characters and ranges. With the flag \<open>i\<close> a character matches a class member when both
  have the same canonical (upper case) form; only \<open>a\<close> to \<open>z\<close> change under it.
\<close>

datatype atom = Lit char | Cls "char list" "(char \<times> char) list"

datatype piece = One atom | AtLeast nat atom

record regex =
  pieces :: "piece list"
  ignoreCase :: bool

definition canonicalize :: "char \<Rightarrow> char" where
  "canonicalize c =
     (if (97::nat) \<le> of_char c \<and> of_char c \<le> (122::nat)
      then char_of (of_char c - (32::nat)) else c)"

definition in_range :: "bool \<Rightarrow> char \<Rightarrow> char \<times> char \<Rightarrow> bool" where
  "in_range i c r =
     (if i then (\<exists>a \<in> set (map char_of [of_char (fst r) ..< Suc (of_char (snd r))] :: char list).
                  canonicalize a = canonicalize c)
      else (of_char (fst r) :: nat) \<le> of_char c \<and> of_char c \<le> (of_char (snd r) :: nat))"

fun atom_matches :: "bool \<Rightarrow> atom \<Rightarrow> char \<Rightarrow> bool" where
  "atom_matches i (Lit a) c = (if i then canonicalize a = canonicalize c else a = c)"
| "atom_matches i (Cls singles ranges) c =
     ((\<exists>a \<in> set singles. if i then canonicalize a = canonicalize c else a = c)
      \<or> (\<exists>r \<in> set ranges. in_range i c r))"

text \<open>
  Matching between \<open>^\<close> and \<open>$\<close> (no flag \<open>m\<close>): the pieces must consume the whole input.
  A repetition tries every count from its minimum up to the rest of the input, which is
  what backtracking explores.
\<close>

fun match_pieces :: "bool \<Rightarrow> piece list \<Rightarrow> string \<Rightarrow> bool" where
  "match_pieces i [] s = (s = [])"
| "match_pieces i (One a # ps) s =
     (case s of [] \<Rightarrow> False | c # cs \<Rightarrow> atom_matches i a c \<and> match_pieces i ps cs)"
| "match_pieces i (AtLeast n a # ps) s =
     (\<exists>k \<in> set [n ..< Suc (length s)].
        list_all (atom_matches i a) (take k s) \<and> match_pieces i ps (drop k s))"

definition regex_test :: "regex \<Rightarrow> string \<Rightarrow> bool" where
  "regex_test re s = match_pieces (ignoreCase re) (pieces re) s"

definition EMAIL_PATTERN :: regex where
  "EMAIL_PATTERN = \<lparr>
     pieces =
       [AtLeast 1 (Cls ''._%+-'' [(CHR ''A'', CHR ''Z''), (CHR ''0'', CHR ''9'')]),
        One (Lit CHR ''@''),
        AtLeast 1 (Cls ''.-'' [(CHR ''A'', CHR ''Z''), (CHR ''0'', CHR ''9'')]),
        One (Lit CHR ''.''),
        AtLeast 2 (Cls [] [(CHR ''A'', CHR ''Z'')])],
     ignoreCase = True \<rparr>"

text \<open>\<open>value.match(re)\<close>: only a string has the method; the rule tests the result against null.\<close>

fun js_match :: "jsvalue \<Rightarrow> regex \<Rightarrow> exn + bool" where
  "js_match (JStr s) re = Inr (regex_test re s)"
| "js_match v re = Inl TypeError"

subsection \<open>Rules provided by the library\<close>

definition RequiredValidationRule :: SynchronousValidationRule where
  "RequiredValidationRule = \<lparr>
     getDescription = Some ''This field is required'',
     getFeedback = Some ''You have not provided this item'',
     isValid = (\<lambda>ctl. case ctl of
        None \<Rightarrow> Inl TypeError
      | Some c \<Rightarrow>
          if eq_null (cvalue c) then Inr False
          else (case toString (cvalue c) of Inl e \<Rightarrow> Inl e | Inr s \<Rightarrow> Inr (length s > 0))) \<rparr>"

definition EmailStructureValidationRule :: SynchronousValidationRule where
  "EmailStructureValidationRule = \<lparr>
     getDescription = Some ''Must be a valid Email address'',
     getFeedback = Some ''This email address is invalid'',
     isValid = (\<lambda>ctl. case ctl of
        None \<Rightarrow> Inl TypeError
      | Some c \<Rightarrow>
          if eq_null (cvalue c) then Inr True
          else js_match (cvalue c) EMAIL_PATTERN) \<rparr>"

section \<open>The directive of informative-validator-rules.ts\<close>

text \<open>
  The fields of the class. A rendered element is represented by its inner HTML, the debounce
  subscription by the identifier of its timer. Fields that may be \<open>null\<close> or
  \<open>undefined\<close> are options.
\<close>

record directive =
  descriptionElement :: "string option"
  feedbackElement :: "string option"
  valid :: bool
  initialised :: bool
  typingTimer :: "nat option"
  validationDelay :: nat
  syncRules :: "SynchronousValidationRule list option"
  asyncRules :: "AsynchronousValidationRule list option"
  syncRuleSet :: "(exn + bool) ruleset option"
  asyncRuleSet :: "settle ruleset option"
  hideFeedback :: bool
  hideDescriptions :: bool
  formControl :: "control option"
  descriptions :: "string list option"
  feedback :: "string list option"

text \<open>The field initialisers of the class: \<open>_valid = false\<close>, \<open>_initialised = false\<close>,
  \<open>_validationDelay = 1500\<close>, \<open>hideFeedback = false\<close>, \<open>hideDescriptions = false\<close>;
  every other field starts undefined.\<close>

definition new_directive :: directive where
  "new_directive = \<lparr>
     descriptionElement = None, feedbackElement = None, valid = False, initialised = False,
     typingTimer = None, validationDelay = 1500,
     syncRules = None, asyncRules = None, syncRuleSet = None, asyncRuleSet = None,
     hideFeedback = False, hideDescriptions = False, formControl = None,
     descriptions = None, feedback = None \<rparr>"

definition getValidationDelay :: "directive \<Rightarrow> nat" where
  "getValidationDelay d = validationDelay d"

subsection \<open>Aggregating the rules\<close>

definition aggregate :: "'r rule list option \<Rightarrow> 'r ruleset option \<Rightarrow> 'r rule list" where
  "aggregate list rset =
     (let fromSet = (case rset of None \<Rightarrow> [] | Some rs \<Rightarrow> getRuleSet rs);
          fromList = (case list of None \<Rightarrow> [] | Some l \<Rightarrow> l)
      in fromSet @ fromList)"

definition getSyncRules :: "directive \<Rightarrow> SynchronousValidationRule list" where
  "getSyncRules d = aggregate (syncRules d) (syncRuleSet d)"

definition getAsyncRules :: "directive \<Rightarrow> AsynchronousValidationRule list" where
  "getAsyncRules d = aggregate (asyncRules d) (asyncRuleSet d)"

subsection \<open>Promise.all\<close>

text \<open>
  \<open>Promise.all\<close> stores the value of each promise at the promise's own position as it
  resolves, rejects as soon as one promise rejects, and resolves with the array of values
  once every position is filled. The order in which the promises settle is a list of
  positions; a promise that never settles is passed over at its turn. The result is
  \<open>None\<close> when the combined promise never settles.
\<close>

fun promise_all_loop ::
  "settle list \<Rightarrow> nat list \<Rightarrow> bool option list \<Rightarrow> (exn + bool list) option" where
  "promise_all_loop ps [] res =
     (if list_all (\<lambda>r. r \<noteq> None) res then Some (Inr (map the res)) else None)"
| "promise_all_loop ps (i # order) res =
     (if i < length ps then
        (case ps ! i of
           Rejects e \<Rightarrow> Some (Inl e)
         | Resolves b \<Rightarrow> promise_all_loop ps order (res[i := Some b])
         | Pending \<Rightarrow> promise_all_loop ps order res)
      else promise_all_loop ps order res)"

definition promise_all :: "settle list \<Rightarrow> nat list \<Rightarrow> (exn + bool list) option" where
  "promise_all ps order = promise_all_loop ps order (replicate (length ps) None)"

subsection \<open>validate\<close>

text \<open>
  A pass records which predicates it invoked, by the position of the rule in its
  aggregated sequence, how the call or the returned promise ended, and the directive after
  it. The verdict of a pass is the pair of \<open>valid\<close> and \<open>feedback\<close> of that directive.
\<close>

datatype call = SyncIsValid nat | AsyncIsValid nat

datatype outcome = Resolved | Threw exn | NeverSettles

record 'd pass =
  outcome :: outcome
  calls :: "call list"
  after :: 'd

text \<open>The loop over the synchronous rules; a throwing predicate ends it with what was
  collected so far.\<close>

fun sync_loop ::
  "SynchronousValidationRule list \<Rightarrow> nat \<Rightarrow> control option \<Rightarrow>
   string list \<times> bool \<times> call list \<Rightarrow> exn option \<times> string list \<times> bool \<times> call list" where
  "sync_loop [] i c st = (None, st)"
| "sync_loop (r # rs) i c (fb, v, tr) =
     (case isValid r c of
        Inl e \<Rightarrow> (Some e, fb, v, tr @ [SyncIsValid i])
      | Inr ruleIsValid \<Rightarrow>
          if \<not> ruleIsValid then
            sync_loop rs (Suc i) c
              ((case getFeedback r of None \<Rightarrow> fb | Some m \<Rightarrow> fb @ [m]), False,
               tr @ [SyncIsValid i])
          else sync_loop rs (Suc i) c (fb, v, tr @ [SyncIsValid i]))"

text \<open>The loop of the \<open>then\<close> callback over the results, which has one entry for each
  asynchronous rule.\<close>

fun async_loop ::
  "AsynchronousValidationRule list \<Rightarrow> bool list \<Rightarrow> string list \<times> bool \<Rightarrow> string list \<times> bool" where
  "async_loop (r # rs) (b # bs) (fb, v) =
     (if \<not> b then
        async_loop rs bs ((case getFeedback r of None \<Rightarrow> fb | Some m \<Rightarrow> fb @ [m]), False)
      else async_loop rs bs (fb, v))"
| "async_loop rs bs st = st"

definition GENERIC_MESSAGE :: string where
  "GENERIC_MESSAGE = ''An unknown error occured during validation. Validation has failed.''"

definition validate :: "nat list \<Rightarrow> directive \<Rightarrow> directive pass" where
  "validate order d =
     (let syncR = getSyncRules d;
          asyncR = getAsyncRules d;
          (thrown, fb, v, tr) = sync_loop syncR 0 (formControl d) ([], True, [])
      in case thrown of
           Some e \<Rightarrow> \<lparr>outcome = Threw e, calls = tr, after = d\<lparr>feedback := Some fb\<rparr>\<rparr>
         | None \<Rightarrow>
             if \<not> v then
               \<lparr>outcome = Resolved, calls = tr, after = d\<lparr>feedback := Some fb, valid := v\<rparr>\<rparr>
             else
               (let promises = map (\<lambda>r. isValid r (formControl d)) asyncR;
                    tr' = tr @ map AsyncIsValid [0 ..< length asyncR]
                in case promise_all promises order of
                     None \<Rightarrow>
                       \<lparr>outcome = NeverSettles, calls = tr', after = d\<lparr>feedback := Some fb\<rparr>\<rparr>
                   | Some (Inl error) \<Rightarrow>
                       \<lparr>outcome = Resolved, calls = tr',
                        after = d\<lparr>feedback := Some [GENERIC_MESSAGE], valid := False\<rparr>\<rparr>
                   | Some (Inr results) \<Rightarrow>
                       (let (fb', v') = async_loop asyncR results (fb, v)
                        in \<lparr>outcome = Resolved, calls = tr',
                            after = d\<lparr>feedback := Some fb', valid := v'\<rparr>\<rparr>)))"

subsection \<open>shouldDisplayFeedback\<close>

definition shouldDisplayFeedback :: "directive \<Rightarrow> bool" where
  "shouldDisplayFeedback d =
     (\<not> (feedback d = None
         \<or> hideFeedback d
         \<or> formControl d = None
         \<or> (case formControl d of None \<Rightarrow> False | Some c \<Rightarrow> untouched c)
         \<or> (case formControl d of None \<Rightarrow> False | Some c \<Rightarrow> status c = ''DISABLED'')
         \<or> valid d))"

subsection \<open>The debounce timer\<close>

text \<open>
  \<open>Observable.timer(delay).subscribe(callback)\<close> arms a one-shot timer and returns its
  subscription; \<open>unsubscribe\<close> disarms it and does nothing on a timer that has fired or
  was disarmed before. The scheduler holds the clock, the armed timers (identifier, due
  time, callback) and the log of the callbacks invoked so far; identifiers are never
  reused.
\<close>

record 'cb scheduler =
  now :: nat
  next_id :: nat
  timers :: "(nat \<times> nat \<times> 'cb) list"
  fired :: "(nat \<times> 'cb) list"

definition new_scheduler :: "'cb scheduler" where
  "new_scheduler = \<lparr>now = 0, next_id = 0, timers = [], fired = []\<rparr>"

definition timer_subscribe :: "nat \<Rightarrow> 'cb \<Rightarrow> 'cb scheduler \<Rightarrow> nat \<times> 'cb scheduler" where
  "timer_subscribe delay cb s =
     (next_id s,
      s\<lparr>next_id := Suc (next_id s), timers := timers s @ [(next_id s, now s + delay, cb)]\<rparr>)"

definition unsubscribe :: "nat \<Rightarrow> 'cb scheduler \<Rightarrow> 'cb scheduler" where
  "unsubscribe t s = s\<lparr>timers := filter (\<lambda>(i, due, cb). i \<noteq> t) (timers s)\<rparr>"

text \<open>Time passes: the armed timers that are due fire in the order of their due times,
  each once, and are no longer armed.\<close>

definition elapse :: "nat \<Rightarrow> 'cb scheduler \<Rightarrow> 'cb scheduler" where
  "elapse dt s =
     (let t = now s + dt;
          due = sort_key (\<lambda>(i, due, cb). due) (filter (\<lambda>(i, due, cb). due \<le> t) (timers s))
      in s\<lparr>now := t,
           timers := filter (\<lambda>(i, due, cb). \<not> due \<le> t) (timers s),
           fired := fired s @ map (\<lambda>(i, due, cb). (i, cb)) due\<rparr>)"

definition waitForInputFinish ::
  "'cb \<Rightarrow> directive \<times> 'cb scheduler \<Rightarrow> directive \<times> 'cb scheduler" where
  "waitForInputFinish callback w =
     (let d = fst w; s = snd w;
          validationDelay = getValidationDelay d;
          s1 = (case typingTimer d of None \<Rightarrow> s | Some t \<Rightarrow> unsubscribe t s);
          (t', s2) = timer_subscribe validationDelay callback s1
      in (d\<lparr>typingTimer := Some t'\<rparr>, s2))"

text \<open>The statement with which \<open>onBlur\<close>, \<open>onKeyUp\<close> and \<open>ngOnDestroy\<close> cancel the
  pending timer: \<open>if(this._typingTimer != null) this._typingTimer.unsubscribe()\<close>.\<close>

definition cancelTypingTimer :: "directive \<times> 'cb scheduler \<Rightarrow> directive \<times> 'cb scheduler" where
  "cancelTypingTimer w =
     (case typingTimer (fst w) of None \<Rightarrow> w | Some t \<Rightarrow> (fst w, unsubscribe t (snd w)))"

datatype 'cb event = Schedule 'cb | Cancel | Elapse nat

fun step :: "directive \<times> 'cb scheduler \<Rightarrow> 'cb event \<Rightarrow> directive \<times> 'cb scheduler" where
  "step w (Schedule cb) = waitForInputFinish cb w"
| "step w Cancel = cancelTypingTimer w"
| "step w (Elapse dt) = (fst w, elapse dt (snd w))"

definition run :: "'cb event list \<Rightarrow> directive \<times> 'cb scheduler \<Rightarrow> directive \<times> 'cb scheduler" where
  "run es w = foldl step w es"

section \<open>The directive of informative-validator.directive.ts\<close>

text \<open>
  The second directive class has no debounce timer, calls its control
  \<open>validationControl\<close>, and pushes feedback without testing it against null, so that its
  feedback array may hold null entries.
\<close>

record directive_dts =
  descriptionElement_dts :: "string option"
  feedbackElement_dts :: "string option"
  initialised_dts :: bool
  valid_dts :: bool
  syncRules_dts :: "SynchronousValidationRule list option"
  asyncRules_dts :: "AsynchronousValidationRule list option"
  syncRuleSet_dts :: "(exn + bool) ruleset option"
  asyncRuleSet_dts :: "settle ruleset option"
  hideFeedback_dts :: bool
  hideDescriptions_dts :: bool
  validationControl :: "control option"
  descriptions_dts :: "string option list option"
  feedback_dts :: "string option list option"

definition getSyncRules_dts :: "directive_dts \<Rightarrow> SynchronousValidationRule list" where
  "getSyncRules_dts d = aggregate (syncRules_dts d) (syncRuleSet_dts d)"

definition getAsyncRules_dts :: "directive_dts \<Rightarrow> AsynchronousValidationRule list" where
  "getAsyncRules_dts d = aggregate (asyncRules_dts d) (asyncRuleSet_dts d)"

text \<open>Each round of the loop calls the predicate, pushes the feedback of a failing rule,
  and calls the predicate a second time in \<open>valid = valid && rule.isValid(...)\<close> as long as
  \<open>valid\<close> is still true.\<close>

fun sync_loop_dts ::
  "SynchronousValidationRule list \<Rightarrow> nat \<Rightarrow> control option \<Rightarrow>
   string option list \<times> bool \<times> call list \<Rightarrow>
   exn option \<times> string option list \<times> bool \<times> call list" where
  "sync_loop_dts [] i c st = (None, st)"
| "sync_loop_dts (r # rs) i c (fb, v, tr) =
     (case isValid r c of
        Inl e \<Rightarrow> (Some e, fb, v, tr @ [SyncIsValid i])
      | Inr ruleIsValid \<Rightarrow>
          (let fb1 = (if \<not> ruleIsValid then fb @ [getFeedback r] else fb);
               tr1 = tr @ [SyncIsValid i]
           in if v then
                (case isValid r c of
                   Inl e \<Rightarrow> (Some e, fb1, v, tr1 @ [SyncIsValid i])
                 | Inr again \<Rightarrow> sync_loop_dts rs (Suc i) c (fb1, again, tr1 @ [SyncIsValid i]))
              else sync_loop_dts rs (Suc i) c (fb1, v, tr1)))"

fun async_loop_dts ::
  "AsynchronousValidationRule list \<Rightarrow> bool list \<Rightarrow> string option list \<times> bool \<Rightarrow>
   string option list \<times> bool" where
  "async_loop_dts (r # rs) (b # bs) (fb, v) =
     async_loop_dts rs bs ((if \<not> b then fb @ [getDescription r] else fb), v \<and> b)"
| "async_loop_dts rs bs st = st"

definition validate_dts :: "nat list \<Rightarrow> directive_dts \<Rightarrow> directive_dts pass" where
  "validate_dts order d =
     (let syncR = getSyncRules_dts d;
          asyncR = getAsyncRules_dts d;
          (thrown, fb, v, tr) = sync_loop_dts syncR 0 (validationControl d) ([], True, [])
      in case thrown of
           Some e \<Rightarrow> \<lparr>outcome = Threw e, calls = tr, after = d\<lparr>feedback_dts := Some fb\<rparr>\<rparr>
         | None \<Rightarrow>
             if \<not> v then
               \<lparr>outcome = Resolved, calls = tr,
                after = d\<lparr>feedback_dts := Some fb, valid_dts := v\<rparr>\<rparr>
             else
               (let promises = map (\<lambda>r. isValid r (validationControl d)) asyncR;
                    tr' = tr @ map AsyncIsValid [0 ..< length asyncR]
                in case promise_all promises order of
                     None \<Rightarrow>
                       \<lparr>outcome = NeverSettles, calls = tr',
                        after = d\<lparr>feedback_dts := Some fb\<rparr>\<rparr>
                   | Some (Inl error) \<Rightarrow>
                       \<lparr>outcome = Resolved, calls = tr',
                        after = d\<lparr>feedback_dts := Some [Some GENERIC_MESSAGE],
                                  valid_dts := False\<rparr>\<rparr>
                   | Some (Inr results) \<Rightarrow>
                       (let (fb', v') = async_loop_dts asyncR results (fb, v)
                        in \<lparr>outcome = Resolved, calls = tr',
                            after = d\<lparr>feedback_dts := Some fb', valid_dts := v'\<rparr>\<rparr>)))"

text \<open>Reading \<open>untouched\<close> of a control that is not bound throws.\<close>

definition shouldDisplayFeedback_dts :: "directive_dts \<Rightarrow> exn + bool" where
  "shouldDisplayFeedback_dts d =
     (if feedback_dts d = None then Inr False
      else if \<not> initialised_dts d then Inr False
      else if hideFeedback_dts d then Inr False
      else (case validationControl d of
              None \<Rightarrow> Inl TypeError
            | Some c \<Rightarrow>
                if untouched c then Inr False
                else if valid_dts d then Inr False
                else Inr True))"

section \<open>What a pass is expected to collect\<close>

text \<open>
  The feedback the specification expects from the rules alone, without reference to the
  loops: the non-null feedback of every rule whose predicate returned false, in the order
  of the rules.
\<close>

definition opt_list :: "'a option \<Rightarrow> 'a list" where
  "opt_list x = (case x of None \<Rightarrow> [] | Some m \<Rightarrow> [m])"

definition sync_feedback :: "SynchronousValidationRule list \<Rightarrow> control option \<Rightarrow> string list" where
  "sync_feedback rs c =
     concat (map (\<lambda>r. if isValid r c = Inr False then opt_list (getFeedback r) else []) rs)"

definition async_feedback :: "AsynchronousValidationRule list \<Rightarrow> control option \<Rightarrow> string list" where
  "async_feedback rs c =
     concat (map (\<lambda>r. if isValid r c = Resolves False then opt_list (getFeedback r) else []) rs)"

text \<open>The feedback of every failing rule, null or not.\<close>

definition sync_feedback_dts ::
  "SynchronousValidationRule list \<Rightarrow> control option \<Rightarrow> string option list" where
  "sync_feedback_dts rs c = map getFeedback (filter (\<lambda>r. isValid r c = Inr False) rs)"

text \<open>
  The strings the email pattern is meant to accept: a non-empty local part of letters,
  digits and \<open>._%+-\<close>, an \<open>@\<close>, a non-empty domain of letters, digits and \<open>.-\<close>,
  a dot, and at least two letters.
\<close>

definition is_letter :: "char \<Rightarrow> bool" where
  "is_letter c = (c \<in> set ''ABCDEFGHIJKLMNOPQRSTUVWXYZabcdefghijklmnopqrstuvwxyz'')"

definition is_digit :: "char \<Rightarrow> bool" where
  "is_digit c = (c \<in> set ''0123456789'')"

definition local_char :: "char \<Rightarrow> bool" where
  "local_char c = (is_letter c \<or> is_digit c \<or> c \<in> set ''._%+-'')"

definition domain_char :: "char \<Rightarrow> bool" where
  "domain_char c = (is_letter c \<or> is_digit c \<or> c \<in> set ''.-'')"

definition matches_email_pattern :: "string \<Rightarrow> bool" where
  "matches_email_pattern s =
     (\<exists>local domain tld.
        s = local @ ''@'' @ domain @ ''.'' @ tld
      \<and> local \<noteq> [] \<and> list_all local_char local
      \<and> domain \<noteq> [] \<and> list_all domain_char domain
      \<and> 2 \<le> length tld \<and> list_all is_letter tld)"

text \<open>The hypotheses on the predicates of a pass.\<close>

definition all_return :: "SynchronousValidationRule list \<Rightarrow> control option \<Rightarrow> bool" where
  "all_return rs c = list_all (\<lambda>r. case isValid r c of Inl e \<Rightarrow> False | Inr b \<Rightarrow> True) rs"

definition all_pass :: "SynchronousValidationRule list \<Rightarrow> control option \<Rightarrow> bool" where
  "all_pass rs c = list_all (\<lambda>r. isValid r c = Inr True) rs"

definition some_fail :: "SynchronousValidationRule list \<Rightarrow> control option \<Rightarrow> bool" where
  "some_fail rs c = list_ex (\<lambda>r. isValid r c = Inr False) rs"

definition all_resolve :: "AsynchronousValidationRule list \<Rightarrow> control option \<Rightarrow> bool" where
  "all_resolve rs c =
     list_all (\<lambda>r. case isValid r c of Resolves b \<Rightarrow> True | Rejects e \<Rightarrow> False | Pending \<Rightarrow> False) rs"

definition all_resolve_true :: "AsynchronousValidationRule list \<Rightarrow> control option \<Rightarrow> bool" where
  "all_resolve_true rs c = list_all (\<lambda>r. isValid r c = Resolves True) rs"

text \<open>The verdict a pass leaves in the directive.\<close>

definition verdict :: "directive \<Rightarrow> bool \<times> string list option" where
  "verdict d = (valid d, feedback d)"

definition verdict_dts :: "directive_dts \<Rightarrow> bool \<times> string option list option" where
  "verdict_dts d = (valid_dts d, feedback_dts d)"

section \<open>Example configurations\<close>

definition example_control :: "jsvalue \<Rightarrow> control" where
  "example_control v = \<lparr>cvalue = v, untouched = False, status = ''VALID'', errors = None\<rparr>"

text \<open>The field initialisers of the class in informative-validator.directive.ts.\<close>

definition new_directive_dts :: directive_dts where
  "new_directive_dts = \<lparr>
     descriptionElement_dts = None, feedbackElement_dts = None, initialised_dts = False,
     valid_dts = False, syncRules_dts = None, asyncRules_dts = None, syncRuleSet_dts = None,
     asyncRuleSet_dts = None, hideFeedback_dts = False, hideDescriptions_dts = False,
     validationControl = None, descriptions_dts = None, feedback_dts = None \<rparr>"

text \<open>An asynchronous rule whose check resolves to false, one whose check rejects, and a
  required rule that gives no feedback.\<close>

definition taken_rule :: AsynchronousValidationRule where
  "taken_rule = \<lparr>
     getDescription = Some ''Must not be registered already'',
     getFeedback = Some ''This email address is already registered'',
     isValid = (\<lambda>c. Resolves False) \<rparr>"

definition offline_rule :: AsynchronousValidationRule where
  "offline_rule = \<lparr>
     getDescription = Some ''Must be known to the server'',
     getFeedback = Some ''The server does not know this item'',
     isValid = (\<lambda>c. Rejects (Thrown ''network'')) \<rparr>"

definition silent_rule :: SynchronousValidationRule where
  "silent_rule = RequiredValidationRule\<lparr>getFeedback := None\<rparr>"

text \<open>A directive with the required rule in its list, the given asynchronous rules and a
  touched, enabled control holding the given value; and the same for the second class.\<close>

definition example_directive :: "jsvalue \<Rightarrow> AsynchronousValidationRule list \<Rightarrow> directive" where
  "example_directive v asyncs =
     new_directive\<lparr>syncRules := Some [RequiredValidationRule], asyncRules := Some asyncs,
                   formControl := Some (example_control v)\<rparr>"

definition example_directive_dts ::
  "jsvalue \<Rightarrow> AsynchronousValidationRule list \<Rightarrow> directive_dts" where
  "example_directive_dts v asyncs =
     new_directive_dts\<lparr>syncRules_dts := Some [RequiredValidationRule],
                       asyncRules_dts := Some asyncs,
                       validationControl := Some (example_control v)\<rparr>"

text \<open>A directive of the second class that holds feedback for a touched, enabled control
  and has not been initialised.\<close>

definition uninitialised_dts :: directive_dts where
  "uninitialised_dts =
     new_directive_dts\<lparr>feedback_dts := Some [Some ''You have not provided this item''],
                       validationControl := Some (example_control (JStr ''''))\<rparr>"

section \<open>The invariant of the debounce timer\<close>

text \<open>
  At most one timer is armed, and it is the one the directive holds; identifiers in use
  are below the next identifier; no timer has fired twice, and no armed timer has fired.
  A timer that is spent can never fire: it is neither armed nor in the log, and its
  identifier is used up.
\<close>

definition debounce_inv :: "directive \<times> 'cb scheduler \<Rightarrow> bool" where
  "debounce_inv w =
     ((timers (snd w) = [] \<or>
        (\<exists>i due cb. timers (snd w) = [(i, due, cb)] \<and> typingTimer (fst w) = Some i))
    \<and> (\<forall>x\<in>set (timers (snd w)). fst x < next_id (snd w))
    \<and> (\<forall>x\<in>set (fired (snd w)). fst x < next_id (snd w))
    \<and> distinct (map fst (fired (snd w)))
    \<and> (\<forall>x\<in>set (timers (snd w)). fst x \<notin> fst ` set (fired (snd w))))"

definition never_fires :: "nat \<Rightarrow> directive \<times> 'cb scheduler \<Rightarrow> bool" where
  "never_fires i w =
     (i < next_id (snd w) \<and> i \<notin> fst ` set (timers (snd w)) \<and> i \<notin> fst ` set (fired (snd w)))"

section \<open>Properties of the loops\<close>

lemma sync_loop_returns:
  assumes "\<forall>r\<in>set rs. \<exists>b. isValid r c = Inr b"
  shows "sync_loop rs i c (fb, v, tr) =
     (None, fb @ sync_feedback rs c, v \<and> (\<forall>r\<in>set rs. isValid r c = Inr True),
      tr @ map SyncIsValid [i ..< i + length rs])"
  using assms
proof (induction rs arbitrary: i fb v tr)
  case Nil
  then show ?case by (simp add: sync_feedback_def)
next
  case (Cons r rs)
  from Cons.prems obtain b where b: "isValid r c = Inr b" by auto
  from Cons.prems have rest: "\<forall>r\<in>set rs. \<exists>b. isValid r c = Inr b" by simp
  have upt: "[i ..< i + length (r # rs)] = i # [Suc i ..< Suc i + length rs]"
    using upt_conv_Cons[of i "i + Suc (length rs)"] by simp
  show ?case
    using b Cons.IH[OF rest] upt
    by (cases b) (auto simp: sync_feedback_def opt_list_def split: option.splits)
qed


lemma promise_all_loop_resolves:
  assumes "length res = length bs"
    and "\<forall>j<length bs. res ! j = None \<or> res ! j = Some (bs ! j)"
    and "\<forall>j<length bs. res ! j \<noteq> None \<or> j \<in> set order"
  shows "promise_all_loop (map Resolves bs) order res = Some (Inr bs)"
  using assms
proof (induction order arbitrary: res)
  case Nil
  then have full: "\<forall>j<length bs. res ! j = Some (bs ! j)" by (metis empty_iff set_empty)
  with Nil.prems(1) have "list_all (\<lambda>r. r \<noteq> None) res"
    by (simp add: list_all_length)
  moreover have "map the res = bs"
    using full Nil.prems(1) by (intro nth_equalityI) auto
  ultimately show ?case by simp
next
  case (Cons i order)
  show ?case
  proof (cases "i < length bs")
    case False
    with Cons.prems have "\<forall>j<length bs. res ! j \<noteq> None \<or> j \<in> set order" by auto
    with Cons False show ?thesis by simp
  next
    case True
    let ?res = "res[i := Some (bs ! i)]"
    have 1: "length ?res = length bs" using Cons.prems(1) by simp
    have 2: "\<forall>j<length bs. ?res ! j = None \<or> ?res ! j = Some (bs ! j)"
    proof (intro allI impI)
      fix j assume j: "j < length bs"
      show "?res ! j = None \<or> ?res ! j = Some (bs ! j)"
        using j True Cons.prems(1,2) by (cases "j = i") simp_all
    qed
    have 3: "\<forall>j<length bs. ?res ! j \<noteq> None \<or> j \<in> set order"
    proof (intro allI impI)
      fix j assume j: "j < length bs"
      show "?res ! j \<noteq> None \<or> j \<in> set order"
        using j True Cons.prems(1,3) by (cases "j = i") auto
    qed
    from Cons.IH[OF 1 2 3] True show ?thesis by simp
  qed
qed

lemma promise_all_resolves:
  assumes "{..<length bs} \<subseteq> set order"
  shows "promise_all (map Resolves bs) order = Some (Inr bs)"
  unfolding promise_all_def
  using assms by (intro promise_all_loop_resolves[where bs = bs, simplified length_map[symmetric]]) auto

lemma async_loop_resolved:
  assumes "map (\<lambda>r. isValid r c) rs = map Resolves bs"
  shows "async_loop rs bs (fb, v) =
     (fb @ async_feedback rs c, v \<and> (\<forall>r\<in>set rs. isValid r c = Resolves True))"
  using assms
proof (induction rs arbitrary: bs fb v)
  case Nil
  then show ?case by (simp add: async_feedback_def)
next
  case (Cons r rs)
  then obtain b bs' where bs: "bs = b # bs'" by (cases bs) auto
  with Cons.prems have r: "isValid r c = Resolves b"
    and rest: "map (\<lambda>r. isValid r c) rs = map Resolves bs'" by auto
  show ?case
    using Cons.IH[OF rest] r bs
    by (cases b) (auto simp: async_feedback_def opt_list_def split: option.splits)
qed

section \<open>Properties of validate\<close>

lemma all_return_iff: "all_return rs c = (\<forall>r\<in>set rs. \<exists>b. isValid r c = Inr b)"
proof -
  have "(case x of Inl e \<Rightarrow> False | Inr b \<Rightarrow> True) = (\<exists>b. x = Inr b)" for x :: "exn + bool"
    by (cases x) auto
  then show ?thesis by (simp add: all_return_def list_all_iff)
qed

lemma all_pass_iff: "all_pass rs c = (\<forall>r\<in>set rs. isValid r c = Inr True)"
  by (simp add: all_pass_def list_all_iff)

lemma some_fail_iff: "some_fail rs c = (\<exists>r\<in>set rs. isValid r c = Inr False)"
  by (simp add: some_fail_def list_ex_iff)

lemma all_pass_return: "all_pass rs c \<Longrightarrow> all_return rs c"
  by (auto simp: all_pass_iff all_return_iff)

lemma some_fail_not_pass: "some_fail rs c \<Longrightarrow> \<not> all_pass rs c"
  by (fastforce simp: all_pass_iff some_fail_iff)

lemma sync_feedback_all_pass: "all_pass rs c \<Longrightarrow> sync_feedback rs c = []"
  by (auto simp: all_pass_iff sync_feedback_def)

lemma all_resolve_map:
  "all_resolve rs c \<Longrightarrow> \<exists>bs. map (\<lambda>r. isValid r c) rs = map Resolves bs"
proof (induction rs)
  case Nil
  then show ?case by simp
next
  case (Cons r rs)
  then obtain bs where bs: "map (\<lambda>r. isValid r c) rs = map Resolves bs"
    by (auto simp: all_resolve_def)
  from Cons.prems obtain b where "isValid r c = Resolves b"
    by (auto simp: all_resolve_def split: settle.splits)
  with bs have "map (\<lambda>r. isValid r c) (r # rs) = map Resolves (b # bs)" by simp
  then show ?case by blast
qed

lemma validate_sync_failure:
  assumes "all_return (getSyncRules d) (formControl d)"
    and "some_fail (getSyncRules d) (formControl d)"
  shows "validate order d =
     \<lparr>outcome = Resolved, calls = map SyncIsValid [0 ..< length (getSyncRules d)],
      after = d\<lparr>feedback := Some (sync_feedback (getSyncRules d) (formControl d)),
                valid := False\<rparr>\<rparr>"
proof -
  from assms(1) have ret: "\<forall>r\<in>set (getSyncRules d). \<exists>b. isValid r (formControl d) = Inr b"
    by (simp add: all_return_iff)
  from assms(2) have np: "\<not> (\<forall>r\<in>set (getSyncRules d). isValid r (formControl d) = Inr True)"
    using some_fail_not_pass by (auto simp: all_pass_iff)
  show ?thesis
    unfolding validate_def Let_def
    using np by (simp add: sync_loop_returns[OF ret])
qed

lemma validate_sync_pass:
  assumes "all_pass (getSyncRules d) (formControl d)"
  shows "validate order d =
     (let asyncR = getAsyncRules d;
          tr' = map SyncIsValid [0 ..< length (getSyncRules d)] @ map AsyncIsValid [0 ..< length asyncR]
      in case promise_all (map (\<lambda>r. isValid r (formControl d)) asyncR) order of
           None \<Rightarrow> \<lparr>outcome = NeverSettles, calls = tr', after = d\<lparr>feedback := Some []\<rparr>\<rparr>
         | Some (Inl error) \<Rightarrow>
             \<lparr>outcome = Resolved, calls = tr',
              after = d\<lparr>feedback := Some [GENERIC_MESSAGE], valid := False\<rparr>\<rparr>
         | Some (Inr results) \<Rightarrow>
             (let (fb', v') = async_loop asyncR results ([], True)
              in \<lparr>outcome = Resolved, calls = tr',
                  after = d\<lparr>feedback := Some fb', valid := v'\<rparr>\<rparr>))"
proof -
  from assms have ret: "\<forall>r\<in>set (getSyncRules d). \<exists>b. isValid r (formControl d) = Inr b"
    using all_pass_return by (simp add: all_return_iff)
  from assms have p: "\<forall>r\<in>set (getSyncRules d). isValid r (formControl d) = Inr True"
    by (simp add: all_pass_iff)
  show ?thesis
    unfolding validate_def Let_def
    using p by (simp add: sync_loop_returns[OF ret] sync_feedback_all_pass[OF assms])
qed


lemma validate_async_resolves:
  assumes "all_pass (getSyncRules d) (formControl d)"
    and "all_resolve (getAsyncRules d) (formControl d)"
    and "{..<length (getAsyncRules d)} \<subseteq> set order"
  shows "validate order d =
     \<lparr>outcome = Resolved,
      calls = map SyncIsValid [0 ..< length (getSyncRules d)] @
              map AsyncIsValid [0 ..< length (getAsyncRules d)],
      after = d\<lparr>feedback := Some (async_feedback (getAsyncRules d) (formControl d)),
                valid := all_resolve_true (getAsyncRules d) (formControl d)\<rparr>\<rparr>"
proof -
  let ?ps = "map (\<lambda>r. isValid r (formControl d)) (getAsyncRules d)"
  from all_resolve_map[OF assms(2)] obtain bs where bs: "?ps = map Resolves bs" ..
  then have len: "length bs = length (getAsyncRules d)"
    by (metis length_map)
  have pa: "promise_all ?ps order = Some (Inr bs)"
    unfolding bs using assms(3) len by (intro promise_all_resolves) simp
  show ?thesis
    by (simp add: validate_sync_pass[OF assms(1)] Let_def pa async_loop_resolved[OF bs]
        all_resolve_true_def list_all_iff)
qed




lemma validate_frame:
  "after (validate order d) =
     d\<lparr>feedback := feedback (after (validate order d)),
       valid := valid (after (validate order d))\<rparr>"
  unfolding validate_def Let_def
  by (simp split: prod.splits option.splits sum.splits)

lemma validate_dts_frame:
  "after (validate_dts order d) =
     d\<lparr>feedback_dts := feedback_dts (after (validate_dts order d)),
       valid_dts := valid_dts (after (validate_dts order d))\<rparr>"
  unfolding validate_dts_def Let_def
  by (simp split: prod.splits option.splits sum.splits)

lemmas example_defs =
  example_directive_def example_directive_dts_def new_directive_def new_directive_dts_def
  example_control_def getSyncRules_def getAsyncRules_def getSyncRules_dts_def
  getAsyncRules_dts_def aggregate_def RequiredValidationRule_def taken_rule_def
  offline_rule_def silent_rule_def all_return_def all_pass_def some_fail_def all_resolve_def
  all_resolve_true_def verdict_def verdict_dts_def sync_feedback_def sync_feedback_dts_def
  async_feedback_def opt_list_def

section \<open>Properties of the email pattern\<close>

lemma char_eq_code: "(c = x) = ((of_char c :: nat) = of_char x)"
  by simp

lemma is_letter_code:
  "is_letter c = ((65::nat) \<le> of_char c \<and> of_char c \<le> (90::nat)
                \<or> (97::nat) \<le> of_char c \<and> of_char c \<le> (122::nat))"
  unfolding is_letter_def
  apply (simp only: set_simps insert_iff empty_iff char_eq_code[of c])
  apply simp
  apply arith
  done

lemma is_digit_code:
  "is_digit c = ((48::nat) \<le> of_char c \<and> of_char c \<le> (57::nat))"
  unfolding is_digit_def
  apply (simp only: set_simps insert_iff empty_iff char_eq_code[of c])
  apply simp
  apply arith
  done

lemma of_char_canonicalize:
  "(of_char (canonicalize c) :: nat) =
     (if (97::nat) \<le> of_char c \<and> of_char c \<le> (122::nat) then of_char c - 32 else of_char c)"
proof -
  have "(of_char c :: nat) - 32 < 256"
    using nat_of_char_less_256[of c] by arith
  then have "((of_char c :: nat) - 32) mod 256 = of_char c - 32"
    by (rule mod_less)
  then show ?thesis by (simp add: canonicalize_def)
qed

lemma in_range_code:
  "in_range True c (lo, hi) =
     (\<exists>k::nat. of_char lo \<le> k \<and> k \<le> of_char hi \<and>
        (of_char (canonicalize (char_of k)) :: nat) = of_char (canonicalize c))"
  by (auto simp: in_range_def simp del: of_char_eq_iff simp add: of_char_eq_iff[symmetric, where 'a = nat])


lemma canonicalize_letter_code:
  "is_letter c = ((65::nat) \<le> of_char (canonicalize c) \<and> of_char (canonicalize c) \<le> (90::nat))"
  unfolding is_letter_code of_char_canonicalize by auto

lemma canonicalize_digit_code:
  "is_digit c = ((48::nat) \<le> of_char (canonicalize c) \<and> of_char (canonicalize c) \<le> (57::nat))"
  unfolding is_digit_code of_char_canonicalize by auto

lemma of_char_canonicalize_upper:
  assumes "k \<le> (90::nat)"
  shows "(of_char (canonicalize (char_of k)) :: nat) = k"
  using assms by (simp add: of_char_canonicalize)

lemma in_range_upper:
  assumes "(of_char hi :: nat) \<le> 90"
  shows "in_range True c (lo, hi) =
     ((of_char lo :: nat) \<le> of_char (canonicalize c) \<and> of_char (canonicalize c) \<le> (of_char hi :: nat))"
proof
  assume "in_range True c (lo, hi)"
  then obtain k :: nat where k: "of_char lo \<le> k" "k \<le> of_char hi"
      "(of_char (canonicalize (char_of k)) :: nat) = of_char (canonicalize c)"
    unfolding in_range_code by blast
  from k(2) assms have "k \<le> 90" by simp
  then have "(of_char (canonicalize (char_of k)) :: nat) = k"
    by (rule of_char_canonicalize_upper)
  with k show "(of_char lo :: nat) \<le> of_char (canonicalize c) \<and> of_char (canonicalize c) \<le> (of_char hi :: nat)"
    by simp
next
  let ?k = "of_char (canonicalize c) :: nat"
  assume b: "(of_char lo :: nat) \<le> ?k \<and> ?k \<le> (of_char hi :: nat)"
  with assms have "?k \<le> 90" by simp
  then have "(of_char (canonicalize (char_of ?k)) :: nat) = ?k"
    by (rule of_char_canonicalize_upper)
  with b show "in_range True c (lo, hi)"
    unfolding in_range_code by blast
qed

lemma in_range_letters: "in_range True c (CHR ''A'', CHR ''Z'') = is_letter c"
  by (simp add: in_range_upper canonicalize_letter_code)

lemma in_range_digits: "in_range True c (CHR ''0'', CHR ''9'') = is_digit c"
  by (simp add: in_range_upper canonicalize_digit_code)

lemma canonicalize_eq_plain:
  assumes "\<not> is_letter a"
  shows "(canonicalize a = canonicalize c) = (a = c)"
proof -
  have "(canonicalize a = canonicalize c) =
        ((of_char (canonicalize a) :: nat) = of_char (canonicalize c))"
    by simp
  also have "\<dots> = ((of_char a :: nat) = of_char c)"
    using assms unfolding is_letter_code of_char_canonicalize by auto
  finally show ?thesis by simp
qed

lemma not_letter:
  "\<not> is_letter CHR ''.''" "\<not> is_letter CHR ''_''" "\<not> is_letter CHR ''%''"
  "\<not> is_letter CHR ''+''" "\<not> is_letter CHR ''-''" "\<not> is_letter CHR ''@''"
  by (simp_all add: is_letter_def)

lemma atom_local:
  "atom_matches True (Cls ''._%+-'' [(CHR ''A'', CHR ''Z''), (CHR ''0'', CHR ''9'')]) = local_char"
  by (rule ext)
     (auto simp: local_char_def in_range_letters in_range_digits canonicalize_eq_plain not_letter)

lemma atom_domain:
  "atom_matches True (Cls ''.-'' [(CHR ''A'', CHR ''Z''), (CHR ''0'', CHR ''9'')]) = domain_char"
  by (rule ext)
     (auto simp: domain_char_def in_range_letters in_range_digits canonicalize_eq_plain not_letter)

lemma atom_tld: "atom_matches True (Cls [] [(CHR ''A'', CHR ''Z'')]) = is_letter"
  by (rule ext) (simp add: in_range_letters)

lemma atom_at: "atom_matches True (Lit CHR ''@'') c = (CHR ''@'' = c)"
  by (simp add: canonicalize_eq_plain not_letter)

lemma atom_dot: "atom_matches True (Lit CHR ''.'') c = (CHR ''.'' = c)"
  by (simp add: canonicalize_eq_plain not_letter)

lemma match_One:
  "match_pieces i (One a # ps) s = (\<exists>c v. s = c # v \<and> atom_matches i a c \<and> match_pieces i ps v)"
  by (cases s) auto

lemma match_AtLeast:
  "match_pieces i (AtLeast n a # ps) s =
     (\<exists>u v. s = u @ v \<and> n \<le> length u \<and> list_all (atom_matches i a) u \<and> match_pieces i ps v)"
proof
  assume "match_pieces i (AtLeast n a # ps) s"
  then obtain k where k: "n \<le> k" "k \<le> length s"
      "list_all (atom_matches i a) (take k s)" "match_pieces i ps (drop k s)"
    by auto
  then have "s = take k s @ drop k s \<and> n \<le> length (take k s)" by simp
  with k show "\<exists>u v. s = u @ v \<and> n \<le> length u \<and> list_all (atom_matches i a) u \<and> match_pieces i ps v"
    by blast
next
  assume "\<exists>u v. s = u @ v \<and> n \<le> length u \<and> list_all (atom_matches i a) u \<and> match_pieces i ps v"
  then obtain u v where uv: "s = u @ v" "n \<le> length u" "list_all (atom_matches i a) u"
      "match_pieces i ps v"
    by blast
  then have k: "length u \<in> set [n ..< Suc (length s)]" by simp
  have "list_all (atom_matches i a) (take (length u) s) \<and> match_pieces i ps (drop (length u) s)"
    using uv by simp
  with k show "match_pieces i (AtLeast n a # ps) s"
    by (simp only: match_pieces.simps) blast
qed

lemma regex_test_email: "regex_test EMAIL_PATTERN s = matches_email_pattern s"
  unfolding regex_test_def EMAIL_PATTERN_def matches_email_pattern_def
  apply (simp add: match_One match_AtLeast atom_local atom_domain atom_tld atom_at atom_dot
      del: match_pieces.simps(2,3) atom_matches.simps)
  apply (rule iffI)
   apply (auto simp: Suc_le_eq)[1]
  apply (elim exE conjE)
  apply (simp add: Suc_le_eq)
  apply blast
  done

section \<open>Properties of the debounce timer\<close>

lemma run_Nil: "run [] w = w"
  by (simp add: run_def)

lemma run_Cons: "run (e # es) w = run es (step w e)"
  by (simp add: run_def)

lemma debounce_inv_initial:
  "typingTimer d0 = None \<Longrightarrow> debounce_inv (d0, new_scheduler)"
  by (simp add: debounce_inv_def new_scheduler_def)

lemma unsubscribe_armed:
  assumes "debounce_inv (d, s)" "typingTimer d = Some t"
  shows "timers (unsubscribe t s) = []"
  using assms by (auto simp: debounce_inv_def unsubscribe_def)

lemma unarmed_no_timers:
  assumes "debounce_inv (d, s)" "typingTimer d = None"
  shows "timers s = []"
  using assms by (auto simp: debounce_inv_def)

lemma waitForInputFinish_result:
  assumes "debounce_inv (d, s)"
  shows "waitForInputFinish cb (d, s) =
     (d\<lparr>typingTimer := Some (next_id s)\<rparr>,
      s\<lparr>next_id := Suc (next_id s), timers := [(next_id s, now s + validationDelay d, cb)]\<rparr>)"
proof (cases "typingTimer d")
  case None
  with assms have "timers s = []" by (rule unarmed_no_timers)
  with None show ?thesis
    by (simp add: waitForInputFinish_def timer_subscribe_def getValidationDelay_def)
next
  case (Some t)
  with assms have "timers (unsubscribe t s) = []" by (rule unsubscribe_armed)
  with Some show ?thesis
    by (simp add: waitForInputFinish_def timer_subscribe_def getValidationDelay_def
        unsubscribe_def)
qed

lemma cancelTypingTimer_result:
  assumes "debounce_inv (d, s)"
  shows "cancelTypingTimer (d, s) = (d, s\<lparr>timers := []\<rparr>)"
proof (cases "typingTimer d")
  case None
  with assms have "timers s = []" by (rule unarmed_no_timers)
  with None show ?thesis by (simp add: cancelTypingTimer_def)
next
  case (Some t)
  with assms have "timers (unsubscribe t s) = []" by (rule unsubscribe_armed)
  with Some show ?thesis
    by (simp add: cancelTypingTimer_def unsubscribe_def)
qed

lemma elapse_unarmed:
  assumes "timers s = []"
  shows "elapse dt s = s\<lparr>now := now s + dt\<rparr>"
  using assms by (simp add: elapse_def)

lemma elapse_armed:
  assumes "timers s = [(i, due, cb)]"
  shows "elapse dt s =
     (if due \<le> now s + dt
      then s\<lparr>now := now s + dt, timers := [], fired := fired s @ [(i, cb)]\<rparr>
      else s\<lparr>now := now s + dt\<rparr>)"
  using assms by (simp add: elapse_def)

lemma debounce_inv_step:
  assumes "debounce_inv w"
  shows "debounce_inv (step w e)"
proof -
  obtain d s where w: "w = (d, s)" by (cases w)
  show ?thesis
  proof (cases e)
    case (Schedule cb)
    from assms have "\<forall>x\<in>set (fired s). fst x < next_id s" "distinct (map fst (fired s))"
      by (simp_all add: debounce_inv_def w)
    then show ?thesis
      using Schedule assms
      by (auto simp: w waitForInputFinish_result debounce_inv_def)
  next
    case Cancel
    then show ?thesis
      using assms by (auto simp: w cancelTypingTimer_result debounce_inv_def)
  next
    case (Elapse dt)
    from assms consider "timers s = []"
      | i due cb where "timers s = [(i, due, cb)]" "typingTimer d = Some i"
      by (auto simp: debounce_inv_def w)
    then show ?thesis
    proof cases
      case 1
      then show ?thesis
        using Elapse assms by (auto simp: w elapse_unarmed debounce_inv_def)
    next
      case 2
      then show ?thesis
        using Elapse assms by (auto simp: w elapse_armed debounce_inv_def)
    qed
  qed
qed

lemma debounce_inv_run:
  assumes "debounce_inv w"
  shows "debounce_inv (run es w)"
  using assms
proof (induction es arbitrary: w)
  case Nil
  then show ?case by (simp add: run_Nil)
next
  case (Cons e es)
  then show ?case by (simp add: run_Cons debounce_inv_step)
qed

lemma debounce_inv_at_most_one:
  "debounce_inv w \<Longrightarrow> length (timers (snd w)) \<le> 1"
  by (auto simp: debounce_inv_def)

lemma elapses_unarmed:
  assumes "timers s = []"
  shows "fired (snd (run (map Elapse dts) (d, s))) = fired s"
  using assms
proof (induction dts arbitrary: s)
  case Nil
  then show ?case by (simp add: run_Nil)
next
  case (Cons dt dts)
  have "timers (elapse dt s) = []" using Cons.prems by (simp add: elapse_unarmed)
  from Cons.IH[OF this] show ?case
    using Cons.prems by (simp add: run_Cons elapse_unarmed)
qed

lemma elapses_armed:
  assumes "timers s = [(i, due, cb)]"
  shows "fired (snd (run (map Elapse dts) (d, s))) =
           fired s @ (if dts \<noteq> [] \<and> due \<le> now s + sum_list dts then [(i, cb)] else [])"
  using assms
proof (induction dts arbitrary: s)
  case Nil
  then show ?case by (simp add: run_Nil)
next
  case (Cons dt dts)
  show ?case
  proof (cases "due \<le> now s + dt")
    case True
    let ?s = "s\<lparr>now := now s + dt, timers := [], fired := fired s @ [(i, cb)]\<rparr>"
    have e: "elapse dt s = ?s" using Cons.prems True by (simp add: elapse_armed)
    have "fired (snd (run (map Elapse dts) (d, ?s))) = fired ?s"
      by (rule elapses_unarmed) simp
    with True show ?thesis by (simp add: run_Cons e)
  next
    case False
    let ?s = "s\<lparr>now := now s + dt\<rparr>"
    have e: "elapse dt s = ?s" using Cons.prems False by (simp add: elapse_armed)
    have "timers ?s = [(i, due, cb)]" using Cons.prems by simp
    from Cons.IH[OF this] False show ?thesis
      by (auto simp: run_Cons e add.assoc)
  qed
qed

lemma never_fires_step:
  assumes "never_fires i w"
  shows "never_fires i (step w e)"
proof -
  obtain d s where w: "w = (d, s)" by (cases w)
  show ?thesis
  proof (cases e)
    case (Schedule cb)
    then show ?thesis
      using assms
      by (auto simp: w never_fires_def waitForInputFinish_def timer_subscribe_def
          unsubscribe_def Let_def split: option.splits)
  next
    case Cancel
    then show ?thesis
      using assms
      by (auto simp: w never_fires_def cancelTypingTimer_def unsubscribe_def
          split: option.splits)
  next
    case (Elapse dt)
    then show ?thesis
      using assms
      by (force simp: w never_fires_def elapse_def Let_def)
  qed
qed

lemma never_fires_run:
  assumes "never_fires i w"
  shows "never_fires i (run es w)"
  using assms
proof (induction es arbitrary: w)
  case Nil
  then show ?case by (simp add: run_Nil)
next
  case (Cons e es)
  then show ?case by (simp add: run_Cons never_fires_step)
qed

lemma cancelled_never_fires:
  assumes "debounce_inv w" "(i, due, cb') \<in> set (timers (snd w))"
  shows "never_fires i (cancelTypingTimer w)" "never_fires i (waitForInputFinish cb w)"
proof -
  obtain d s where w: "w = (d, s)" by (cases w)
  from assms have "i < next_id s" "i \<notin> fst ` set (fired s)"
    by (force simp: debounce_inv_def w)+
  then show "never_fires i (cancelTypingTimer w)" "never_fires i (waitForInputFinish cb w)"
    using assms(1)
    by (simp_all add: w cancelTypingTimer_result waitForInputFinish_result never_fires_def)
qed

lemmas debounce_defs =
  run_def waitForInputFinish_def cancelTypingTimer_def timer_subscribe_def unsubscribe_def
  elapse_def new_scheduler_def new_directive_def getValidationDelay_def Let_def

section \<open>The claims\<close>





text \<open>
  C4. Aggregation puts the rules of the set first, in the set's order, and the rules of
  the list after them, in list order; an absent list and an absent set each contribute
  nothing, so with both absent the result is empty. The four aggregating methods of the two
  directive classes are this aggregation of their own fields.
\<close>

theorem aggregation_order:
  "aggregate (Some L) (Some S) = getRuleSet S @ L
 \<and> aggregate None (Some S) = getRuleSet S
 \<and> aggregate (Some L) None = L
 \<and> aggregate None None = ([] :: 'r rule list)
 \<and> getSyncRules (d\<lparr>syncRules := Ls, syncRuleSet := Ss\<rparr>) = aggregate Ls Ss
 \<and> getAsyncRules (d\<lparr>asyncRules := La, asyncRuleSet := Sa\<rparr>) = aggregate La Sa
 \<and> getSyncRules_dts (d'\<lparr>syncRules_dts := Ls, syncRuleSet_dts := Ss\<rparr>) = aggregate Ls Ss
 \<and> getAsyncRules_dts (d'\<lparr>asyncRules_dts := La, asyncRuleSet_dts := Sa\<rparr>) = aggregate La Sa"
  by (simp add: aggregate_def getSyncRules_def getAsyncRules_def getSyncRules_dts_def
      getAsyncRules_dts_def)

text \<open>
  C8. With the required rule as the only rule and the empty string as the value of the
  control, a pass resolves with \<open>valid = false\<close> and the one message of the rule.
\<close>

theorem required_rule_on_empty_string:
  assumes "getSyncRules d = [RequiredValidationRule]"
    and "getAsyncRules d = []"
    and "formControl d = Some c"
    and "cvalue c = JStr ''''"
  shows "outcome (validate order d) = Resolved
       \<and> verdict (after (validate order d)) = (False, Some [''You have not provided this item''])"
proof -
  have "all_return (getSyncRules d) (formControl d)" "some_fail (getSyncRules d) (formControl d)"
    using assms by (simp_all add: all_return_def some_fail_def RequiredValidationRule_def)
  from validate_sync_failure[OF this, of order] show ?thesis
    using assms
    by (simp add: verdict_def sync_feedback_def opt_list_def RequiredValidationRule_def)
qed

theorem required_rule_on_empty_string_witness:
  "getSyncRules (new_directive\<lparr>syncRuleSet := Some (RuleSet [RequiredValidationRule]),
                               formControl := Some (example_control (JStr ''''))\<rparr>)
     = [RequiredValidationRule]
 \<and> getAsyncRules (new_directive\<lparr>syncRuleSet := Some (RuleSet [RequiredValidationRule]),
                               formControl := Some (example_control (JStr ''''))\<rparr>) = []
 \<and> cvalue (example_control (JStr '''')) = JStr ''''
 \<and> verdict (after (validate [] (new_directive\<lparr>syncRuleSet := Some (RuleSet [RequiredValidationRule]),
                               formControl := Some (example_control (JStr ''''))\<rparr>)))
     = (False, Some [''You have not provided this item''])"
proof -
  let ?d = "new_directive\<lparr>syncRuleSet := Some (RuleSet [RequiredValidationRule]),
                               formControl := Some (example_control (JStr ''''))\<rparr>"
  have h: "getSyncRules ?d = [RequiredValidationRule]" "getAsyncRules ?d = []"
    "formControl ?d = Some (example_control (JStr ''''))"
    "cvalue (example_control (JStr '''')) = JStr ''''"
    by (simp_all add: getSyncRules_def getAsyncRules_def aggregate_def new_directive_def
        example_control_def)
  from required_rule_on_empty_string[OF h, of "[]"] h show ?thesis by simp
qed

text \<open>
  C9. A pass changes no field of the directive other than \<open>feedback\<close> and \<open>valid\<close>: in
  particular the control with its error sink and the rendered elements are as before. This
  holds for both directive classes, however the pass ends.
\<close>

theorem validate_only_writes_verdict:
  "after (validate order d) =
     d\<lparr>feedback := feedback (after (validate order d)),
       valid := valid (after (validate order d))\<rparr>
 \<and> formControl (after (validate order d)) = formControl d
 \<and> feedbackElement (after (validate order d)) = feedbackElement d
 \<and> descriptionElement (after (validate order d)) = descriptionElement d
 \<and> after (validate_dts order' d') =
     d'\<lparr>feedback_dts := feedback_dts (after (validate_dts order' d')),
        valid_dts := valid_dts (after (validate_dts order' d'))\<rparr>
 \<and> validationControl (after (validate_dts order' d')) = validationControl d'
 \<and> feedbackElement_dts (after (validate_dts order' d')) = feedbackElement_dts d'
 \<and> descriptionElement_dts (after (validate_dts order' d')) = descriptionElement_dts d'"
proof -
  have 1: "formControl (after (validate order d)) = formControl d
     \<and> feedbackElement (after (validate order d)) = feedbackElement d
     \<and> descriptionElement (after (validate order d)) = descriptionElement d"
    unfolding validate_def Let_def
    by (simp split: prod.splits option.splits sum.splits)
  have 2: "validationControl (after (validate_dts order' d')) = validationControl d'
     \<and> feedbackElement_dts (after (validate_dts order' d')) = feedbackElement_dts d'
     \<and> descriptionElement_dts (after (validate_dts order' d')) = descriptionElement_dts d'"
    unfolding validate_dts_def Let_def
    by (simp split: prod.splits option.splits sum.splits)
  from 1 2 validate_frame[of order d] validate_dts_frame[of order' d'] show ?thesis
    by blast
qed

text \<open>
  C3. When all synchronous rules pass and all asynchronous operations resolve, the feedback
  is to be the feedback of the failing asynchronous rules. The directive of
  informative-validator-rules.ts does so (lemma \<open>validate_async_resolves\<close>, for every
  completion order). The directive of informative-validator.directive.ts pushes the
  description of the failing rule instead: with one asynchronous rule that resolves to
  false, its verdict holds the rule's description, not the rule's feedback.
\<close>

theorem validate_dts_pushes_description:
  "verdict_dts (after (validate_dts [0] (new_directive_dts\<lparr>asyncRules_dts := Some [taken_rule]\<rparr>)))
     = (False, Some [Some ''Must not be registered already''])
 \<and> getFeedback taken_rule = Some ''This email address is already registered''"
  by code_simp

text \<open>
  C5. The feedback of a failing synchronous rule is to be collected only when it is not
  null. The directive of informative-validator-rules.ts does so (lemmas
  \<open>sync_loop_returns\<close> and \<open>validate_sync_failure\<close>). The directive of
  informative-validator.directive.ts pushes the feedback of a failing rule untested and
  calls the predicate twice: with one failing rule whose feedback is null, its verdict
  holds a null entry and the predicate of the rule is invoked two times.
\<close>

theorem validate_dts_collects_null_feedback:
  "verdict_dts (after (validate_dts []
      (new_directive_dts\<lparr>syncRules_dts := Some [silent_rule],
                         validationControl := Some (example_control (JStr ''''))\<rparr>)))
     = (False, Some [None])
 \<and> calls (validate_dts []
      (new_directive_dts\<lparr>syncRules_dts := Some [silent_rule],
                         validationControl := Some (example_control (JStr ''''))\<rparr>))
     = [SyncIsValid 0, SyncIsValid 0]"
  by (simp add: validate_dts_def promise_all_def example_defs)

text \<open>
  C7, as stated, fails for the directive of informative-validator.directive.ts, which also
  answers false while it is not initialised: here feedback is present and not hidden, the
  control is bound, touched and enabled, the last verdict is invalid, and the answer is
  false.
\<close>

theorem shouldDisplayFeedback_dts_uninitialised:
  "shouldDisplayFeedback_dts uninitialised_dts = Inr False
 \<and> feedback_dts uninitialised_dts \<noteq> None
 \<and> \<not> hideFeedback_dts uninitialised_dts
 \<and> validationControl uninitialised_dts = Some (example_control (JStr ''''))
 \<and> \<not> untouched (example_control (JStr ''''))
 \<and> status (example_control (JStr '''')) \<noteq> ''DISABLED''
 \<and> \<not> valid_dts uninitialised_dts"
  by (simp add: shouldDisplayFeedback_dts_def uninitialised_dts_def new_directive_dts_def
      example_control_def)

text \<open>
  C7, amended. In informative-validator-rules.ts, shouldDisplayFeedback is false exactly
  when no feedback has been computed, feedback is hidden, no control is bound, the control
  is untouched, the control is disabled, or the last verdict was valid. In
  informative-validator.directive.ts, for a bound control that is not disabled, it is
  false exactly when no feedback has been computed, the directive is not initialised,
  feedback is hidden, the control is untouched, or the last verdict was valid.
\<close>

theorem shouldDisplayFeedback_decision:
  "shouldDisplayFeedback d =
     (\<not> (feedback d = None \<or> hideFeedback d \<or> formControl d = None
         \<or> (\<exists>c. formControl d = Some c \<and> untouched c)
         \<or> (\<exists>c. formControl d = Some c \<and> status c = ''DISABLED'')
         \<or> valid d))
 \<and> (validationControl d' = Some c' \<and> status c' \<noteq> ''DISABLED'' \<longrightarrow>
      shouldDisplayFeedback_dts d' =
        Inr (\<not> (feedback_dts d' = None \<or> \<not> initialised_dts d' \<or> hideFeedback_dts d'
                \<or> untouched c' \<or> valid_dts d')))"
  by (auto simp: shouldDisplayFeedback_def shouldDisplayFeedback_dts_def split: option.splits)

theorem shouldDisplayFeedback_decision_witness:
  "validationControl (uninitialised_dts\<lparr>initialised_dts := True\<rparr>) = Some (example_control (JStr ''''))
 \<and> status (example_control (JStr '''')) \<noteq> ''DISABLED''
 \<and> shouldDisplayFeedback_dts (uninitialised_dts\<lparr>initialised_dts := True\<rparr>) = Inr True
 \<and> shouldDisplayFeedback
       ((example_directive (JStr '''') [])\<lparr>feedback := Some [''You have not provided this item'']\<rparr>)"
proof -
  let ?d = "(example_directive (JStr '''') [])\<lparr>feedback := Some [''You have not provided this item'']\<rparr>"
  let ?d' = "uninitialised_dts\<lparr>initialised_dts := True\<rparr>"
  have h: "validationControl ?d' = Some (example_control (JStr ''''))"
    "status (example_control (JStr '''')) \<noteq> ''DISABLED''"
    by (simp_all add: uninitialised_dts_def example_control_def)
  from shouldDisplayFeedback_decision[of ?d ?d' "example_control (JStr '''')"] h
  show ?thesis
    by (simp add: uninitialised_dts_def new_directive_dts_def example_control_def
        example_directive_def new_directive_def)
qed

text \<open>
  C10, as stated, fails for a value that is neither null nor a string: such a value has no
  \<open>match\<close> method, so the rule throws instead of testing the string form of the value.
\<close>

theorem email_rule_throws_on_number:
  "isValid EmailStructureValidationRule (Some (example_control (JOther ''42''))) = Inl TypeError
 \<and> \<not> eq_null (cvalue (example_control (JOther ''42'')))
 \<and> isValid EmailStructureValidationRule (Some (example_control (JOther ''42'')))
     \<noteq> Inr (regex_test EMAIL_PATTERN ''42'')"
  by (simp add: EmailStructureValidationRule_def example_control_def)

text \<open>
  C10, amended. The email rule returns true for every control whose value is null or
  undefined, and for every control whose value is a string it returns true exactly when
  the string matches the email pattern.
\<close>

theorem email_rule_decision:
  "(eq_null (cvalue c) \<longrightarrow> isValid EmailStructureValidationRule (Some c) = Inr True)
 \<and> (cvalue c = JStr s \<longrightarrow>
      isValid EmailStructureValidationRule (Some c) = Inr (matches_email_pattern s))"
  by (auto simp: EmailStructureValidationRule_def regex_test_email)

theorem email_rule_decision_witness:
  "eq_null (cvalue (example_control JNull))
 \<and> isValid EmailStructureValidationRule (Some (example_control JNull)) = Inr True
 \<and> cvalue (example_control (JStr ''a@b.co'')) = JStr ''a@b.co''
 \<and> isValid EmailStructureValidationRule (Some (example_control (JStr ''a@b.co''))) = Inr True
 \<and> cvalue (example_control (JStr ''not-an-email'')) = JStr ''not-an-email''
 \<and> isValid EmailStructureValidationRule (Some (example_control (JStr ''not-an-email''))) = Inr False"
proof -
  have h: "eq_null (cvalue (example_control JNull))"
    "cvalue (example_control (JStr ''a@b.co'')) = JStr ''a@b.co''"
    "cvalue (example_control (JStr ''not-an-email'')) = JStr ''not-an-email''"
    by (simp_all add: example_control_def)
  have m1: "matches_email_pattern ''a@b.co''"
    unfolding matches_email_pattern_def
    by (intro exI[of _ "''a''"] exI[of _ "''b''"] exI[of _ "''co''"])
       (simp add: local_char_def domain_char_def is_letter_def)
  have m2: "\<not> matches_email_pattern ''not-an-email''"
  proof
    assume "matches_email_pattern ''not-an-email''"
    then obtain l d t where "''not-an-email'' = l @ ''@'' @ d @ ''.'' @ t"
      unfolding matches_email_pattern_def by blast
    then have "set ''not-an-email'' = set (l @ ''@'' @ d @ ''.'' @ t)" by (rule arg_cong)
    then have "CHR ''@'' \<in> set ''not-an-email''" by simp
    then show False by simp
  qed
  from email_rule_decision[of "example_control JNull"]
       email_rule_decision[of "example_control (JStr ''a@b.co'')" "''a@b.co''"]
       email_rule_decision[of "example_control (JStr ''not-an-email'')" "''not-an-email''"]
       h m1 m2
  show ?thesis by simp
qed

text \<open>
  C6. The delay of a new directive is 1500 ms. In every state reached from a new binding
  by scheduling, cancelling and the passing of time, at most one timer is armed. Scheduling
  leaves exactly one armed timer, the new one, due after the configured delay, and fires
  nothing itself; if only time passes afterwards, its callback is invoked once when the
  delay has elapsed and not before. No timer fires twice. Cancelling leaves no timer
  armed and changes nothing when none is armed. A timer that was armed when the binding
  cancelled or scheduled anew never fires afterwards, whatever happens later.
\<close>

theorem debounce_timer:
  "getValidationDelay new_directive = 1500
 \<and> (typingTimer d0 = None \<and> w = run es (d0, new_scheduler) \<longrightarrow>
      length (timers (snd w)) \<le> 1
    \<and> timers (snd (waitForInputFinish cb w)) =
        [(next_id (snd w), now (snd w) + getValidationDelay (fst w), cb)]
    \<and> typingTimer (fst (waitForInputFinish cb w)) = Some (next_id (snd w))
    \<and> fired (snd (waitForInputFinish cb w)) = fired (snd w)
    \<and> fired (snd (run (map Elapse dts) (waitForInputFinish cb w))) =
        fired (snd w) @
        (if dts \<noteq> [] \<and> getValidationDelay (fst w) \<le> sum_list dts
         then [(next_id (snd w), cb)] else [])
    \<and> distinct (map fst (fired (snd w)))
    \<and> timers (snd (cancelTypingTimer w)) = []
    \<and> (timers (snd w) = [] \<longrightarrow> cancelTypingTimer w = w)
    \<and> ((i, due, cb') \<in> set (timers (snd w)) \<longrightarrow>
          i \<notin> fst ` set (fired (snd (run es' (cancelTypingTimer w))))
        \<and> i \<notin> fst ` set (fired (snd (run es' (waitForInputFinish cb w))))))"
proof (intro conjI impI)
  show "getValidationDelay new_directive = 1500"
    by (simp add: getValidationDelay_def new_directive_def)
next
  assume h: "typingTimer d0 = None \<and> w = run es (d0, new_scheduler)"
  then have inv: "debounce_inv w"
    by (simp add: debounce_inv_initial debounce_inv_run)
  obtain d s where w: "w = (d, s)" by (cases w)
  note sched = waitForInputFinish_result[OF inv[unfolded w], of cb]
  show "length (timers (snd w)) \<le> 1"
    using inv by (rule debounce_inv_at_most_one)
  show "timers (snd (waitForInputFinish cb w)) =
        [(next_id (snd w), now (snd w) + getValidationDelay (fst w), cb)]"
    by (simp add: w sched getValidationDelay_def)
  show "typingTimer (fst (waitForInputFinish cb w)) = Some (next_id (snd w))"
    by (simp add: w sched)
  show "fired (snd (waitForInputFinish cb w)) = fired (snd w)"
    by (simp add: w sched)
  show "fired (snd (run (map Elapse dts) (waitForInputFinish cb w))) =
        fired (snd w) @
        (if dts \<noteq> [] \<and> getValidationDelay (fst w) \<le> sum_list dts
         then [(next_id (snd w), cb)] else [])"
    unfolding w sched
    by (subst elapses_armed[where i = "next_id s" and due = "now s + validationDelay d" and cb = cb])
       (simp_all add: getValidationDelay_def)
  show "distinct (map fst (fired (snd w)))"
    using inv by (simp add: debounce_inv_def)
  show "timers (snd (cancelTypingTimer w)) = []"
    by (simp add: w cancelTypingTimer_result[OF inv[unfolded w]])
  show "cancelTypingTimer w = w" if "timers (snd w) = []"
    using that by (simp add: w cancelTypingTimer_result[OF inv[unfolded w]])
  show "i \<notin> fst ` set (fired (snd (run es' (cancelTypingTimer w))))"
    if "(i, due, cb') \<in> set (timers (snd w))"
    using never_fires_run[OF cancelled_never_fires(1)[OF inv that], of es']
    by (simp add: never_fires_def)
  show "i \<notin> fst ` set (fired (snd (run es' (waitForInputFinish cb w))))"
    if "(i, due, cb') \<in> set (timers (snd w))"
    using never_fires_run[OF cancelled_never_fires(2)[OF inv that], of es' cb]
    by (simp add: never_fires_def)
qed

theorem debounce_timer_witness:
  "typingTimer new_directive = None
 \<and> (0, 1500, ''first'') \<in> set (timers (snd (run [Schedule ''first'', Elapse 1000]
        (new_directive, new_scheduler))))
 \<and> timers (snd (waitForInputFinish ''second'' (run [Schedule ''first'', Elapse 1000]
        (new_directive, new_scheduler)))) = [(1, 2500, ''second'')]
 \<and> fired (snd (run (map Elapse [1000, 500]) (waitForInputFinish ''second''
        (run [Schedule ''first'', Elapse 1000] (new_directive, new_scheduler)))))
      = [(1, ''second'')]
 \<and> 0 \<notin> fst ` set (fired (snd (run [Elapse 5000] (waitForInputFinish ''second''
        (run [Schedule ''first'', Elapse 1000] (new_directive, new_scheduler))))))
 \<and> 0 \<notin> fst ` set (fired (snd (run [Elapse 5000] (cancelTypingTimer
        (run [Schedule ''first'', Elapse 1000] (new_directive, new_scheduler))))))
 \<and> timers (snd (run [Schedule ''first'', Elapse 1500] (new_directive, new_scheduler))) = []
 \<and> cancelTypingTimer (run [Schedule ''first'', Elapse 1500] (new_directive, new_scheduler))
      = run [Schedule ''first'', Elapse 1500] (new_directive, new_scheduler)"
proof -
  let ?w = "run [Schedule ''first'', Elapse 1000] (new_directive, new_scheduler)"
  let ?v = "run [Schedule ''first'', Elapse 1500] (new_directive, new_scheduler)"
  have h: "typingTimer new_directive = None" by (simp add: new_directive_def)
  have w: "timers (snd ?w) = [(0, 1500, ''first'')]" "next_id (snd ?w) = 1" "now (snd ?w) = 1000"
    "fired (snd ?w) = []" "getValidationDelay (fst ?w) = 1500"
    by (simp_all add: debounce_defs)
  have v: "timers (snd ?v) = []"
    by (simp add: debounce_defs)
  from debounce_timer[of new_directive ?w "[Schedule ''first'', Elapse 1000]" "''second''"
         "[1000, 500]" 0 1500 "''first''" "[Elapse 5000]"]
       debounce_timer[of new_directive ?v "[Schedule ''first'', Elapse 1500]" "''second''"
         "[]" 0 0 "''first''" "[]"]
       h w v
  show ?thesis by simp
qed

end
